theory Spec2Isabelle
  imports Main "HOL-Library.Multiset" "HOL-Library.Char_ord" "HOL-Library.List_Lexorder"
begin

section \<open>PyConcatenator: validating and composing image fragments\<close>

text \<open>
  The program (\<^verbatim>\<open>Script.py\<close>) finds the files \<^verbatim>\<open>segment_*.png\<close> of a folder, checks
  that they all have the pixel size of the first one (\<^verbatim>\<open>check_image_sizes\<close>) and pastes
  them side by side or one below the other on a new canvas that it saves as a PNG
  (\<^verbatim>\<open>concatenate_images\<close>).

  Both functions work on the file system through the imaging library:
  \<^verbatim>\<open>Image.open\<close>, \<^verbatim>\<open>img.size\<close>, \<^verbatim>\<open>Image.new\<close>, \<^verbatim>\<open>paste\<close>, \<^verbatim>\<open>save\<close>, \<^verbatim>\<open>close\<close>, and
  they print to the terminal. The model passes an explicit \<open>world\<close> through every
  call: the files on disk, what an attempt to save at a path will do, the image
  handles that are open (a multiset: one path can be opened more than once), the
  lines printed and the paths written. An exception is a
  value \<open>Inl e\<close>; a \<^verbatim>\<open>try\<close> block is a function that returns \<open>Inl e\<close> or \<open>Inr r\<close>
  together with the world as it is at that moment, and the \<^verbatim>\<open>except Exception\<close>
  clause is the case distinction on that result.
\<close>

subsection \<open>Data\<close>

type_synonym path = string

text \<open>A pixel size is \<open>(width, height)\<close>; the library reports non-negative integers.\<close>

type_synonym pixel_size = "nat \<times> nat"

text \<open>The exceptions the library calls raise; all of them are \<^verbatim>\<open>Exception\<close>s.\<close>

datatype exn = FileNotFoundError | UnidentifiedImageError | OSError | IndexError

text \<open>
  An opened image object: the path it was opened from, its \<^verbatim>\<open>size\<close>, and whether its
  pixel data can be loaded. \<^verbatim>\<open>Image.open\<close> reads the header only; the pixel data is
  read when the image is pasted, which raises for a file whose body is damaged.
\<close>

record pil_image =
  filename :: path
  img_size :: pixel_size
  loadable :: bool

text \<open>
  The image made by \<^verbatim>\<open>Image.new\<close>: its size and the paste calls applied to it, oldest
  first, each with the pasted image and the offset \<open>(x, y)\<close> of its upper left corner.
\<close>

record canvas =
  canvas_size :: pixel_size
  pasted :: "(pil_image \<times> (nat \<times> nat)) list"

text \<open>
  A file on disk: one the library cannot identify as an image, a raster image with
  its size and whether its body is intact, or an image this program saved.
\<close>

datatype disk_file = Unidentified | Raster pixel_size bool | Composed canvas

text \<open>
  What \<^verbatim>\<open>save\<close> does at a path: it writes the whole file, or it raises before touching
  the path, or it raises after opening the path for writing and leaves there what
  the third constructor says (\<open>None\<close>: no file).
\<close>

datatype save_outcome = Completes | RaisesUntouched exn | RaisesLeaving exn "disk_file option"

text \<open>The two lines the functions print, each with the exception it reports.\<close>

datatype message = SizeCheckError exn | ConcatError exn

record world =
  files :: "path \<rightharpoonup> disk_file"
  save_env :: "path \<Rightarrow> save_outcome"
  open_handles :: "pil_image multiset"
  stdout :: "message list"
  write_log :: "path list"

subsection \<open>The library calls\<close>

definition py_print :: "world \<Rightarrow> message \<Rightarrow> world" where
  "py_print w m = w\<lparr>stdout := stdout w @ [m]\<rparr>"

text \<open>The image object the library makes of a file's header, if it identifies one.\<close>

fun read_header :: "path \<Rightarrow> disk_file \<Rightarrow> pil_image option" where
  "read_header p Unidentified = None"
| "read_header p (Raster s ok) = Some \<lparr>filename = p, img_size = s, loadable = ok\<rparr>"
| "read_header p (Composed c) =
     Some \<lparr>filename = p, img_size = canvas_size c, loadable = True\<rparr>"

text \<open>\<^verbatim>\<open>Image.open(p)\<close>: raises, or returns the image and holds a handle on the file.\<close>

definition Image_open :: "world \<Rightarrow> path \<Rightarrow> (exn + pil_image) \<times> world" where
  "Image_open w p =
     (case files w p of
        None \<Rightarrow> (Inl FileNotFoundError, w)
      | Some f \<Rightarrow>
          (case read_header p f of
             None \<Rightarrow> (Inl UnidentifiedImageError, w)
           | Some img \<Rightarrow> (Inr img, w\<lparr>open_handles := add_mset img (open_handles w)\<rparr>)))"

text \<open>
  \<^verbatim>\<open>img.close()\<close>, also what leaving a \<^verbatim>\<open>with Image.open(..) as img\<close> block does:
  the handle is released; closing a closed image does nothing.
\<close>

definition Image_close :: "world \<Rightarrow> pil_image \<Rightarrow> world" where
  "Image_close w img = w\<lparr>open_handles := open_handles w - {#img#}\<rparr>"

text \<open>\<^verbatim>\<open>Image.new('RGBA', s)\<close>: a blank canvas; it is taken to fit in memory.\<close>

definition Image_new :: "pixel_size \<Rightarrow> canvas" where
  "Image_new s = \<lparr>canvas_size = s, pasted = []\<rparr>"

text \<open>\<^verbatim>\<open>result_img.paste(img, (x, y))\<close>: loads the pixel data of \<open>img\<close>, which may raise.\<close>

definition paste :: "canvas \<Rightarrow> pil_image \<Rightarrow> nat \<times> nat \<Rightarrow> exn + canvas" where
  "paste c img off =
     (if loadable img then Inr (c\<lparr>pasted := pasted c @ [(img, off)]\<rparr>) else Inl OSError)"

text \<open>\<^verbatim>\<open>result_img.save(output_path, 'PNG')\<close>: writes straight to \<open>output_path\<close>.\<close>

definition Image_save :: "world \<Rightarrow> canvas \<Rightarrow> path \<Rightarrow> (exn + unit) \<times> world" where
  "Image_save w c output_path =
     (case save_env w output_path of
        Completes \<Rightarrow>
          (Inr (), w\<lparr>files := (files w)(output_path \<mapsto> Composed c),
                      write_log := write_log w @ [output_path]\<rparr>)
      | RaisesUntouched e \<Rightarrow> (Inl e, w)
      | RaisesLeaving e left \<Rightarrow>
          (Inl e, w\<lparr>files := (files w)(output_path := left),
                     write_log := write_log w @ [output_path]\<rparr>))"

subsection \<open>check_image_sizes\<close>

text \<open>
  The loop of lines 54 to 57 over \<^verbatim>\<open>file_paths[1:]\<close>, followed by line 59: each file is
  opened in a \<^verbatim>\<open>with\<close> block, which closes it when the block is left, by the
  \<^verbatim>\<open>return\<close> as well. A size that differs from \<open>base_size\<close> returns \<open>(False, None)\<close>;
  the end of the loop returns \<open>(True, base_size)\<close>.
\<close>

fun check_rest ::
  "world \<Rightarrow> pixel_size \<Rightarrow> path list \<Rightarrow> (exn + bool \<times> pixel_size option) \<times> world" where
  "check_rest w base_size [] = (Inr (True, Some base_size), w)"
| "check_rest w base_size (file_path # rest) =
     (case Image_open w file_path of
        (Inl e, w1) \<Rightarrow> (Inl e, w1)
      | (Inr img, w1) \<Rightarrow>
          if img_size img \<noteq> base_size then (Inr (False, None), Image_close w1 img)
          else check_rest (Image_close w1 img) base_size rest)"

text \<open>The \<^verbatim>\<open>try\<close> block, lines 49 to 59.\<close>

definition check_image_sizes_try ::
  "world \<Rightarrow> path list \<Rightarrow> (exn + bool \<times> pixel_size option) \<times> world" where
  "check_image_sizes_try w file_paths =
     (case file_paths of
        [] \<Rightarrow> (Inl IndexError, w)
      | first # rest \<Rightarrow>
          (case Image_open w first of
             (Inl e, w1) \<Rightarrow> (Inl e, w1)
           | (Inr img, w1) \<Rightarrow> check_rest (Image_close w1 img) (img_size img) rest))"

definition check_image_sizes ::
  "world \<Rightarrow> path list \<Rightarrow> (bool \<times> pixel_size option) \<times> world" where
  "check_image_sizes w file_paths =
     (if file_paths = [] then ((False, None), w)
      else
        (case check_image_sizes_try w file_paths of
           (Inr r, w1) \<Rightarrow> (r, w1)
         | (Inl e, w1) \<Rightarrow> ((False, None), py_print w1 (SizeCheckError e))))"

subsection \<open>concatenate_images\<close>

text \<open>Lines 71 to 74: every file is opened and kept open, in the order of the list.\<close>

fun open_all ::
  "world \<Rightarrow> path list \<Rightarrow> pil_image list \<Rightarrow> (exn + pil_image list) \<times> world" where
  "open_all w [] images = (Inr images, w)"
| "open_all w (file_path # rest) images =
     (case Image_open w file_path of
        (Inl e, w1) \<Rightarrow> (Inl e, w1)
      | (Inr img, w1) \<Rightarrow> open_all w1 rest (images @ [img]))"

text \<open>Lines 85 to 88 and 95 to 98: the paste loops, with their running offset.\<close>

fun paste_horizontal :: "canvas \<Rightarrow> nat \<Rightarrow> nat \<Rightarrow> pil_image list \<Rightarrow> exn + canvas" where
  "paste_horizontal result_img width x_offset [] = Inr result_img"
| "paste_horizontal result_img width x_offset (img # rest) =
     (case paste result_img img (x_offset, 0) of
        Inl e \<Rightarrow> Inl e
      | Inr r \<Rightarrow> paste_horizontal r width (x_offset + width) rest)"

fun paste_vertical :: "canvas \<Rightarrow> nat \<Rightarrow> nat \<Rightarrow> pil_image list \<Rightarrow> exn + canvas" where
  "paste_vertical result_img height y_offset [] = Inr result_img"
| "paste_vertical result_img height y_offset (img # rest) =
     (case paste result_img img (0, y_offset) of
        Inl e \<Rightarrow> Inl e
      | Inr r \<Rightarrow> paste_vertical r height (y_offset + height) rest)"

text \<open>
  Lines 77 to 98: the canvas size comes from \<^verbatim>\<open>images[0].size\<close> and the number of
  images; any direction other than \<^verbatim>\<open>'horizontal'\<close> is vertical.
\<close>

definition build_canvas :: "string \<Rightarrow> pil_image list \<Rightarrow> exn + canvas" where
  "build_canvas direction images =
     (case images of
        [] \<Rightarrow> Inl IndexError
      | img0 # _ \<Rightarrow>
          (let (width, height) = img_size img0 in
           if direction = ''horizontal''
           then paste_horizontal (Image_new (width * length images, height)) width 0 images
           else paste_vertical (Image_new (width, height * length images)) height 0 images))"

text \<open>Lines 104 and 105.\<close>

definition close_all :: "world \<Rightarrow> pil_image list \<Rightarrow> world" where
  "close_all w images = fold (\<lambda>img w'. Image_close w' img) images w"

text \<open>The \<^verbatim>\<open>try\<close> block, lines 71 to 107.\<close>

definition concatenate_images_try ::
  "world \<Rightarrow> path list \<Rightarrow> string \<Rightarrow> path \<Rightarrow> (exn + bool) \<times> world" where
  "concatenate_images_try w file_paths direction output_path =
     (case open_all w file_paths [] of
        (Inl e, w1) \<Rightarrow> (Inl e, w1)
      | (Inr images, w1) \<Rightarrow>
          (case build_canvas direction images of
             Inl e \<Rightarrow> (Inl e, w1)
           | Inr result_img \<Rightarrow>
               (case Image_save w1 result_img output_path of
                  (Inl e, w2) \<Rightarrow> (Inl e, w2)
                | (Inr _, w2) \<Rightarrow> (Inr True, close_all w2 images))))"

definition concatenate_images :: "world \<Rightarrow> path list \<Rightarrow> string \<Rightarrow> path \<Rightarrow> bool \<times> world" where
  "concatenate_images w file_paths direction output_path =
     (if file_paths = [] then (False, w)
      else
        (case concatenate_images_try w file_paths direction output_path of
           (Inr r, w1) \<Rightarrow> (r, w1)
         | (Inl e, w1) \<Rightarrow> (False, py_print w1 (ConcatError e))))"

subsection \<open>find_segment_files and the output name\<close>

text \<open>\<^verbatim>\<open>os.path.join(folder_path, 'segment_*.png')\<close> with the separator \<^verbatim>\<open>/\<close>.\<close>

definition os_path_join :: "path \<Rightarrow> string \<Rightarrow> path" where
  "os_path_join folder_path name =
     (if folder_path = [] \<or> last folder_path = CHR ''/'' then folder_path @ name
      else folder_path @ ''/'' @ name)"

text \<open>
  \<^verbatim>\<open>glob.glob\<close> is a parameter: the paths that match a pattern, in the order the
  operating system lists them. \<^verbatim>\<open>sorted\<close> orders strings character by character.
\<close>

definition find_segment_files :: "(string \<Rightarrow> path list) \<Rightarrow> path \<Rightarrow> path list" where
  "find_segment_files glob folder_path = sort (glob (os_path_join folder_path ''segment_*.png''))"

text \<open>The decimal digits of a number, as \<^verbatim>\<open>str\<close> and an f-string write it.\<close>

fun str_nat :: "nat \<Rightarrow> string" where
  "str_nat n =
     (if n < 10 then [char_of (48 + n)] else str_nat (n div 10) @ [char_of (48 + n mod 10)])"

declare str_nat.simps [simp del]

text \<open>
  Lines 210 to 213: \<open>timestamp\<close> is the text \<^verbatim>\<open>strftime("%Y%m%d_%H%M%S")\<close> gives for the
  current second and \<open>random_suffix\<close> the number \<^verbatim>\<open>random.randint(100, 999)\<close> returns.
\<close>

definition randint :: "nat \<Rightarrow> nat \<Rightarrow> nat \<Rightarrow> bool" where
  "randint a b r = (a \<le> r \<and> r \<le> b)"

definition output_filename :: "string \<Rightarrow> nat \<Rightarrow> string" where
  "output_filename timestamp random_suffix =
     timestamp @ ''_'' @ str_nat random_suffix @ ''.png''"

definition output_path_of :: "string \<Rightarrow> nat \<Rightarrow> path" where
  "output_path_of timestamp random_suffix =
     ''concatenated/'' @ output_filename timestamp random_suffix"

text \<open>Lines 210 to 217 of \<^verbatim>\<open>main\<close>: the output is named and the fragments are composed.\<close>

definition compose_run ::
  "world \<Rightarrow> string \<Rightarrow> nat \<Rightarrow> path list \<Rightarrow> string \<Rightarrow> bool \<times> world" where
  "compose_run w timestamp random_suffix segment_files direction =
     concatenate_images w segment_files direction (output_path_of timestamp random_suffix)"


subsection \<open>What a path holds\<close>

text \<open>The image object \<^verbatim>\<open>Image.open\<close> makes of a path, if it can open it.\<close>

definition image_of_file :: "world \<Rightarrow> path \<Rightarrow> pil_image option" where
  "image_of_file w p = (case files w p of None \<Rightarrow> None | Some f \<Rightarrow> read_header p f)"

text \<open>The pixel size of the image at a path, if the library can open it.\<close>

definition size_of_file :: "world \<Rightarrow> path \<Rightarrow> pixel_size option" where
  "size_of_file w p = map_option img_size (image_of_file w p)"

text \<open>The path opens as an image whose pixel data loads.\<close>

definition loads :: "world \<Rightarrow> path \<Rightarrow> bool" where
  "loads w p = (case image_of_file w p of None \<Rightarrow> False | Some img \<Rightarrow> loadable img)"

text \<open>The paths with the offsets at which a canvas has them, in paste order.\<close>

definition placed :: "canvas \<Rightarrow> (path \<times> (nat \<times> nat)) list" where
  "placed c = map (\<lambda>(img, off). (filename img, off)) (pasted c)"

text \<open>The same for the file this program saved at a path.\<close>

definition placed_at :: "world \<Rightarrow> path \<Rightarrow> (path \<times> (nat \<times> nat)) list option" where
  "placed_at w p = (case files w p of Some (Composed c) \<Rightarrow> Some (placed c) | _ \<Rightarrow> None)"

subsection \<open>A folder tree to run the functions on\<close>

text \<open>
  Folder \<^verbatim>\<open>ok\<close> holds two fragments of 100 by 50 pixels; folder \<^verbatim>\<open>bad\<close> one of 100 by
  50, one of 80 by 50 and a file that is no image; folder \<^verbatim>\<open>cut\<close> a fragment whose
  header is intact and whose pixel data is cut short. Every save completes.
\<close>

definition demo_files :: "path \<rightharpoonup> disk_file" where
  "demo_files =
     [''ok/segment_01.png'' \<mapsto> Raster (100, 50) True,
      ''ok/segment_02.png'' \<mapsto> Raster (100, 50) True,
      ''bad/segment_01.png'' \<mapsto> Raster (100, 50) True,
      ''bad/segment_02.png'' \<mapsto> Raster (80, 50) True,
      ''bad/segment_03.png'' \<mapsto> Unidentified,
      ''cut/segment_01.png'' \<mapsto> Raster (100, 50) False]"

definition demo :: world where
  "demo = \<lparr>files = demo_files, save_env = (\<lambda>_. Completes), open_handles = {#},
            stdout = [], write_log = []\<rparr>"

text \<open>What \<^verbatim>\<open>glob.glob\<close> lists in that tree, last file first.\<close>

definition demo_glob :: "string \<Rightarrow> path list" where
  "demo_glob pattern =
     (if pattern = ''ok/segment_*.png'' then [''ok/segment_02.png'', ''ok/segment_01.png'']
      else if pattern = ''bad/segment_*.png''
      then [''bad/segment_03.png'', ''bad/segment_02.png'', ''bad/segment_01.png'']
      else if pattern = ''cut/segment_*.png'' then [''cut/segment_01.png'']
      else [])"

text \<open>
  The same tree on a full disk, after an earlier run left its output at \<^verbatim>\<open>out.png\<close>:
  a save there opens the file for writing, raises, and leaves a file cut short.
\<close>

definition earlier_output :: canvas where
  "earlier_output = \<lparr>canvas_size = (100, 100), pasted = []\<rparr>"

definition demo_full_disk :: world where
  "demo_full_disk =
     \<lparr>files = demo_files(''out.png'' \<mapsto> Composed earlier_output),
      save_env = (\<lambda>_. RaisesLeaving OSError (Some (Raster (200, 50) False))),
      open_handles = {#}, stdout = [], write_log = []\<rparr>"

section \<open>Opening and closing\<close>

lemma image_of_file_handles [simp]:
  "image_of_file (w\<lparr>open_handles := hs\<rparr>) = image_of_file w"
  by (rule ext) (simp add: image_of_file_def)

lemma Image_open_Some:
  "image_of_file w p = Some img \<Longrightarrow>
   Image_open w p = (Inr img, w\<lparr>open_handles := add_mset img (open_handles w)\<rparr>)"
  by (auto simp: image_of_file_def Image_open_def split: option.splits)

lemma Image_open_None:
  "image_of_file w p = None \<Longrightarrow> \<exists>e. Image_open w p = (Inl e, w)"
  by (auto simp: image_of_file_def Image_open_def split: option.splits)

lemma Image_close_opened [simp]:
  "Image_close (w\<lparr>open_handles := add_mset img (open_handles w)\<rparr>) img = w"
  by (simp add: Image_close_def)

lemma image_of_file_filename:
  "image_of_file w p = Some img \<Longrightarrow> filename img = p"
  by (cases "files w p"; cases "the (files w p)") (auto simp: image_of_file_def)

section \<open>The validator\<close>

text \<open>One round of the loop, by what the path holds.\<close>

lemma check_rest_Cons_None:
  "size_of_file w p = None \<Longrightarrow> \<exists>e. check_rest w s (p # ps) = (Inl e, w)"
proof -
  assume "size_of_file w p = None"
  then have "image_of_file w p = None" by (simp add: size_of_file_def)
  then obtain e where "Image_open w p = (Inl e, w)" using Image_open_None by blast
  then show ?thesis by simp
qed

lemma check_rest_Cons_Some:
  "size_of_file w p = Some t \<Longrightarrow>
   check_rest w s (p # ps) = (if t \<noteq> s then (Inr (False, None), w) else check_rest w s ps)"
proof -
  assume "size_of_file w p = Some t"
  then obtain img where "image_of_file w p = Some img" "img_size img = t"
    by (auto simp: size_of_file_def)
  then show ?thesis by (simp add: Image_open_Some)
qed

declare check_rest.simps(2) [simp del]

lemma check_rest_same:
  "\<forall>p \<in> set ps. size_of_file w p = Some s \<Longrightarrow> check_rest w s ps = (Inr (True, Some s), w)"
  by (induction ps) (simp_all add: check_rest_Cons_Some)

text \<open>The loop ends in one of three ways, and each leaves the world as it found it.\<close>

lemma check_rest_cases:
  "check_rest w s ps = (Inr (True, Some s), w) \<or> check_rest w s ps = (Inr (False, None), w)
   \<or> (\<exists>e. check_rest w s ps = (Inl e, w))"
proof (induction ps)
  case Nil
  then show ?case by simp
next
  case (Cons p ps)
  show ?case
  proof (cases "size_of_file w p")
    case None
    then show ?thesis using check_rest_Cons_None by blast
  next
    case (Some t)
    then show ?thesis using Cons.IH by (simp add: check_rest_Cons_Some)
  qed
qed

lemma check_rest_True:
  "fst (check_rest w s ps) = Inr (True, r) \<Longrightarrow> \<forall>p \<in> set ps. size_of_file w p = Some s"
proof (induction ps)
  case Nil
  then show ?case by simp
next
  case (Cons p ps)
  show ?case
  proof (cases "size_of_file w p")
    case None
    then obtain e where "check_rest w s (p # ps) = (Inl e, w)"
      using check_rest_Cons_None by blast
    with Cons.prems show ?thesis by simp
  next
    case (Some t)
    with Cons show ?thesis by (auto simp: check_rest_Cons_Some split: if_splits)
  qed
qed

lemma check_rest_Inl:
  "fst (check_rest w s ps) = Inl e \<Longrightarrow> \<exists>p \<in> set ps. size_of_file w p = None"
proof (induction ps)
  case Nil
  then show ?case by simp
next
  case (Cons p ps)
  show ?case
  proof (cases "size_of_file w p")
    case None
    then show ?thesis by simp
  next
    case (Some t)
    with Cons show ?thesis by (auto simp: check_rest_Cons_Some split: if_splits)
  qed
qed

text \<open>The same for the whole \<^verbatim>\<open>try\<close> block.\<close>

lemma check_image_sizes_try_None:
  "size_of_file w first = None \<Longrightarrow> \<exists>e. check_image_sizes_try w (first # rest) = (Inl e, w)"
proof -
  assume "size_of_file w first = None"
  then have "image_of_file w first = None" by (simp add: size_of_file_def)
  then obtain e where "Image_open w first = (Inl e, w)" using Image_open_None by blast
  then show ?thesis by (simp add: check_image_sizes_try_def)
qed

lemma check_image_sizes_try_Some:
  "size_of_file w first = Some s \<Longrightarrow>
   check_image_sizes_try w (first # rest) = check_rest w s rest"
proof -
  assume "size_of_file w first = Some s"
  then obtain img where "image_of_file w first = Some img" "img_size img = s"
    by (auto simp: size_of_file_def)
  then show ?thesis by (simp add: check_image_sizes_try_def Image_open_Some)
qed

lemma check_rest_False:
  "fst (check_rest w s ps) = Inr (False, r) \<Longrightarrow>
   \<exists>q \<in> set ps. size_of_file w q \<noteq> None \<and> size_of_file w q \<noteq> Some s"
proof (induction ps)
  case Nil
  then show ?case by simp
next
  case (Cons p ps)
  show ?case
  proof (cases "size_of_file w p")
    case None
    then obtain e where "check_rest w s (p # ps) = (Inl e, w)"
      using check_rest_Cons_None by blast
    with Cons.prems show ?thesis by simp
  next
    case (Some t)
    with Cons show ?thesis by (auto simp: check_rest_Cons_Some split: if_splits)
  qed
qed

lemma check_image_sizes_Cons:
  "check_image_sizes w (first # rest) =
     (case check_image_sizes_try w (first # rest) of
        (Inr r, w1) \<Rightarrow> (r, w1)
      | (Inl e, w1) \<Rightarrow> ((False, None), py_print w1 (SizeCheckError e)))"
  by (simp add: check_image_sizes_def)

text \<open>The files of the folder tree, as the library sees them.\<close>

lemma demo_sizes:
  "size_of_file demo ''ok/segment_01.png'' = Some (100, 50)"
  "size_of_file demo ''ok/segment_02.png'' = Some (100, 50)"
  "size_of_file demo ''bad/segment_01.png'' = Some (100, 50)"
  "size_of_file demo ''bad/segment_02.png'' = Some (80, 50)"
  "size_of_file demo ''bad/segment_03.png'' = None"
  "size_of_file demo ''cut/segment_01.png'' = Some (100, 50)"
  by (simp_all add: size_of_file_def image_of_file_def demo_def demo_files_def)

text \<open>Unfolding the calls on a concrete world.\<close>

lemmas demo_eval =
  check_image_sizes_def check_image_sizes_try_def check_rest.simps Image_open_def
  Image_close_def py_print_def demo_def demo_files_def

text \<open>
  C1. A non-empty list of fragments that all have the pixel size \<open>(wd, ht)\<close> passes the
  validator: it returns success with that size. It also leaves the world as it found
  it: nothing is printed and no handle stays open.
\<close>

theorem check_image_sizes_same_size:
  assumes "file_paths \<noteq> []"
    and "\<forall>p \<in> set file_paths. size_of_file w p = Some (wd, ht)"
  shows "check_image_sizes w file_paths = ((True, Some (wd, ht)), w)"
proof -
  from assms(1) obtain first rest where fp: "file_paths = first # rest"
    by (cases file_paths) auto
  with assms(2) have "size_of_file w first = Some (wd, ht)"
    and "\<forall>p \<in> set rest. size_of_file w p = Some (wd, ht)" by simp_all
  then have "check_image_sizes_try w (first # rest) = (Inr (True, Some (wd, ht)), w)"
    by (simp add: check_image_sizes_try_Some check_rest_same)
  with fp show ?thesis by (simp add: check_image_sizes_Cons)
qed

theorem check_image_sizes_same_size_witness:
  "[''ok/segment_01.png'', ''ok/segment_02.png''] \<noteq> [] \<and>
   size_of_file demo ''ok/segment_01.png'' = Some (100, 50) \<and>
   size_of_file demo ''ok/segment_02.png'' = Some (100, 50) \<and>
   check_image_sizes demo [''ok/segment_01.png'', ''ok/segment_02.png'']
     = ((True, Some (100, 50)), demo)"
  using check_image_sizes_same_size
    [of "[''ok/segment_01.png'', ''ok/segment_02.png'']" demo 100 50]
  by (simp add: demo_sizes)

text \<open>
  C2. A list in which some fragment after the first has a pixel size other than the
  first fragment's is rejected: the validator returns \<open>(False, None)\<close>, failure and no
  common size. When every file of the list can be opened, that is the return of line
  57: nothing is printed and no handle stays open.
\<close>

theorem check_image_sizes_mismatch:
  assumes "size_of_file w first = Some s0"
    and "p \<in> set rest" and "size_of_file w p = Some s" and "s \<noteq> s0"
  shows "fst (check_image_sizes w (first # rest)) = (False, None) \<and>
         ((\<forall>q \<in> set rest. size_of_file w q \<noteq> None) \<longrightarrow>
            snd (check_image_sizes w (first # rest)) = w)"
proof -
  have body: "check_image_sizes_try w (first # rest) = check_rest w s0 rest"
    using assms(1) by (rule check_image_sizes_try_Some)
  have not_true: "check_rest w s0 rest \<noteq> (Inr (True, Some s0), w)"
  proof
    assume "check_rest w s0 rest = (Inr (True, Some s0), w)"
    then have "fst (check_rest w s0 rest) = Inr (True, Some s0)" by simp
    then have "size_of_file w p = Some s0" using check_rest_True assms(2) by blast
    with assms(3,4) show False by simp
  qed
  from check_rest_cases [of w s0 rest] not_true
  consider "check_rest w s0 rest = (Inr (False, None), w)"
    | e where "check_rest w s0 rest = (Inl e, w)" by blast
  then show ?thesis
  proof cases
    case 1
    with body show ?thesis by (simp add: check_image_sizes_Cons)
  next
    case 2
    then have "fst (check_rest w s0 rest) = Inl e" by simp
    then have "\<exists>q \<in> set rest. size_of_file w q = None" by (rule check_rest_Inl)
    with 2 body show ?thesis by (auto simp: check_image_sizes_Cons)
  qed
qed

theorem check_image_sizes_mismatch_witness:
  "size_of_file demo ''bad/segment_01.png'' = Some (100, 50) \<and>
   ''bad/segment_02.png'' \<in> set [''bad/segment_02.png''] \<and>
   size_of_file demo ''bad/segment_02.png'' = Some (80, 50) \<and>
   (80, 50) \<noteq> (100 :: nat, 50 :: nat) \<and>
   check_image_sizes demo [''bad/segment_01.png'', ''bad/segment_02.png'']
     = ((False, None), demo)"
  using check_image_sizes_mismatch
    [of demo "''bad/segment_01.png''" "(100, 50)" "''bad/segment_02.png''"
        "[''bad/segment_02.png'']" "(80, 50)"]
  by (simp add: demo_sizes prod_eq_iff)

text \<open>
  C6, as the code has it. A list that holds a file the library cannot open does not
  make the validator raise: it returns \<open>(False, None)\<close>, the value it returns for a
  size mismatch. The world it leaves is the one it found, or that world with one
  line printed that reports the exception; the line is printed whenever no file of
  the list that can be opened differs in size from the first.
\<close>

theorem check_image_sizes_unreadable:
  assumes "p \<in> set file_paths" and "size_of_file w p = None"
  shows "fst (check_image_sizes w file_paths) = (False, None) \<and>
         (snd (check_image_sizes w file_paths) = w \<or>
          (\<exists>e. snd (check_image_sizes w file_paths) = py_print w (SizeCheckError e))) \<and>
         ((\<forall>q \<in> set file_paths.
              size_of_file w q = None \<or> size_of_file w q = size_of_file w (hd file_paths)) \<longrightarrow>
            (\<exists>e. snd (check_image_sizes w file_paths) = py_print w (SizeCheckError e)))"
proof -
  from assms(1) obtain first rest where fp: "file_paths = first # rest"
    by (cases file_paths) auto
  show ?thesis
  proof (cases "size_of_file w first")
    case None
    then obtain e where "check_image_sizes_try w (first # rest) = (Inl e, w)"
      using check_image_sizes_try_None by blast
    with fp show ?thesis by (auto simp: check_image_sizes_Cons)
  next
    case (Some s0)
    then have body: "check_image_sizes_try w (first # rest) = check_rest w s0 rest"
      by (rule check_image_sizes_try_Some)
    from Some assms fp have p_rest: "p \<in> set rest" by auto
    have not_true: "check_rest w s0 rest \<noteq> (Inr (True, Some s0), w)"
    proof
      assume "check_rest w s0 rest = (Inr (True, Some s0), w)"
      then have "fst (check_rest w s0 rest) = Inr (True, Some s0)" by simp
      then have "size_of_file w p = Some s0" using check_rest_True p_rest by blast
      with assms(2) show False by simp
    qed
    from check_rest_cases [of w s0 rest] not_true
    consider "check_rest w s0 rest = (Inr (False, None), w)"
      | e where "check_rest w s0 rest = (Inl e, w)" by blast
    then show ?thesis
    proof cases
      case 1
      then have "fst (check_rest w s0 rest) = Inr (False, None)" by simp
      then obtain q where "q \<in> set rest" "size_of_file w q \<noteq> None"
        "size_of_file w q \<noteq> Some s0"
        using check_rest_False by blast
      with 1 body fp Some show ?thesis by (auto simp: check_image_sizes_Cons)
    next
      case 2
      with body fp show ?thesis by (auto simp: check_image_sizes_Cons)
    qed
  qed
qed

theorem check_image_sizes_unreadable_witness:
  "''bad/segment_03.png'' \<in> set [''bad/segment_01.png'', ''bad/segment_03.png''] \<and>
   size_of_file demo ''bad/segment_03.png'' = None \<and>
   fst (check_image_sizes demo [''bad/segment_01.png'', ''bad/segment_03.png''])
     = (False, None) \<and>
   (\<exists>e. snd (check_image_sizes demo [''bad/segment_01.png'', ''bad/segment_03.png''])
     = py_print demo (SizeCheckError e))"
  using check_image_sizes_unreadable
    [of "''bad/segment_03.png''" "[''bad/segment_01.png'', ''bad/segment_03.png'']" demo]
  by (simp add: demo_sizes)

text \<open>
  C6, as the spec has it, fails: the caller cannot tell a read error from a size
  mismatch. A list with a file that is no image and a list with a fragment of
  another size both return \<open>(False, None)\<close>.
\<close>

theorem read_error_returns_like_mismatch:
  "size_of_file demo ''bad/segment_03.png'' = None \<and>
   size_of_file demo ''bad/segment_02.png'' = Some (80, 50) \<and>
   fst (check_image_sizes demo [''bad/segment_01.png'', ''bad/segment_03.png''])
     = fst (check_image_sizes demo [''bad/segment_01.png'', ''bad/segment_02.png''])"
  by (simp add: demo_eval size_of_file_def image_of_file_def)

section \<open>The compositor\<close>

subsection \<open>Opening the fragments\<close>

lemma open_all_ok:
  "map (image_of_file w) ps = map Some imgs \<Longrightarrow>
   open_all w ps acc = (Inr (acc @ imgs), w\<lparr>open_handles := mset imgs + open_handles w\<rparr>)"
proof (induction ps arbitrary: w acc imgs)
  case Nil
  then show ?case by simp
next
  case (Cons p ps)
  then obtain img rest where imgs: "imgs = img # rest" and img: "image_of_file w p = Some img"
    and rest: "map (image_of_file w) ps = map Some rest"
    by (cases imgs) auto
  let ?w1 = "w\<lparr>open_handles := add_mset img (open_handles w)\<rparr>"
  from rest have "map (image_of_file ?w1) ps = map Some rest" by simp
  then have "open_all ?w1 ps (acc @ [img])
    = (Inr ((acc @ [img]) @ rest), ?w1\<lparr>open_handles := mset rest + open_handles ?w1\<rparr>)"
    by (rule Cons.IH)
  with img imgs show ?case by (simp add: Image_open_Some)
qed

lemma open_all_handles_only:
  "\<exists>hs. snd (open_all w ps acc) = w\<lparr>open_handles := hs\<rparr>"
proof (induction ps arbitrary: w acc)
  case Nil
  have "snd (open_all w [] acc) = w\<lparr>open_handles := open_handles w\<rparr>" by simp
  then show ?case by blast
next
  case (Cons p ps)
  show ?case
  proof (cases "image_of_file w p")
    case None
    then obtain e where "Image_open w p = (Inl e, w)" using Image_open_None by blast
    then have "snd (open_all w (p # ps) acc) = w\<lparr>open_handles := open_handles w\<rparr>"
      by simp
    then show ?thesis by blast
  next
    case (Some img)
    let ?w1 = "w\<lparr>open_handles := add_mset img (open_handles w)\<rparr>"
    from Cons.IH [of ?w1 "acc @ [img]"] obtain hs
      where "snd (open_all ?w1 ps (acc @ [img])) = ?w1\<lparr>open_handles := hs\<rparr>" by blast
    then have "snd (open_all w (p # ps) acc) = w\<lparr>open_handles := hs\<rparr>"
      using Some by (simp add: Image_open_Some)
    then show ?thesis by blast
  qed
qed

lemma open_all_Inl:
  "\<exists>p \<in> set ps. image_of_file w p = None \<Longrightarrow> \<exists>e. fst (open_all w ps acc) = Inl e"
proof (induction ps arbitrary: w acc)
  case Nil
  then show ?case by simp
next
  case (Cons p ps)
  show ?case
  proof (cases "image_of_file w p")
    case None
    then obtain e where "Image_open w p = (Inl e, w)" using Image_open_None by blast
    then show ?thesis by simp
  next
    case (Some img)
    let ?w1 = "w\<lparr>open_handles := add_mset img (open_handles w)\<rparr>"
    from Cons.prems Some have "\<exists>q \<in> set ps. image_of_file ?w1 q = None" by auto
    then have "\<exists>e. fst (open_all ?w1 ps (acc @ [img])) = Inl e" by (rule Cons.IH)
    with Some show ?thesis by (simp add: Image_open_Some)
  qed
qed

text \<open>When every path opens, the images are the ones the paths hold, in order.\<close>

lemma all_open_images:
  "\<forall>p \<in> set ps. image_of_file w p \<noteq> None \<Longrightarrow>
   map (image_of_file w) ps = map Some (map (\<lambda>p. the (image_of_file w p)) ps)"
  by (induction ps) auto

lemma images_filenames:
  "map (image_of_file w) ps = map Some imgs \<Longrightarrow> map filename imgs = ps"
proof (induction ps arbitrary: imgs)
  case Nil
  then show ?case by simp
next
  case (Cons p ps)
  then obtain img rest where "imgs = img # rest" "image_of_file w p = Some img"
    "map (image_of_file w) ps = map Some rest"
    by (cases imgs) auto
  with Cons.IH show ?case by (simp add: image_of_file_filename)
qed

subsection \<open>Pasting\<close>

lemma paste_horizontal_ok:
  "\<forall>img \<in> set imgs. loadable img \<Longrightarrow>
   paste_horizontal c width x imgs =
     Inr (c\<lparr>pasted := pasted c @ zip imgs (map (\<lambda>i. (x + i * width, 0)) [0..<length imgs])\<rparr>)"
proof (induction imgs arbitrary: c x)
  case Nil
  then show ?case by simp
next
  case (Cons img imgs)
  then have "loadable img" and "\<forall>i \<in> set imgs. loadable i" by simp_all
  then show ?case
    by (simp add: paste_def Cons.IH map_upt_Suc add.assoc del: upt_Suc)
qed

lemma paste_vertical_ok:
  "\<forall>img \<in> set imgs. loadable img \<Longrightarrow>
   paste_vertical c height y imgs =
     Inr (c\<lparr>pasted := pasted c @ zip imgs (map (\<lambda>i. (0, y + i * height)) [0..<length imgs])\<rparr>)"
proof (induction imgs arbitrary: c y)
  case Nil
  then show ?case by simp
next
  case (Cons img imgs)
  then have "loadable img" and "\<forall>i \<in> set imgs. loadable i" by simp_all
  then show ?case
    by (simp add: paste_def Cons.IH map_upt_Suc add.assoc del: upt_Suc)
qed

lemma paste_horizontal_fail:
  "\<exists>img \<in> set imgs. \<not> loadable img \<Longrightarrow> \<exists>e. paste_horizontal c width x imgs = Inl e"
  by (induction imgs arbitrary: c x) (auto simp: paste_def)

lemma paste_vertical_fail:
  "\<exists>img \<in> set imgs. \<not> loadable img \<Longrightarrow> \<exists>e. paste_vertical c height y imgs = Inl e"
  by (induction imgs arbitrary: c y) (auto simp: paste_def)

lemma build_canvas_unfold:
  "images \<noteq> [] \<Longrightarrow> img_size (hd images) = (wd, ht) \<Longrightarrow>
   build_canvas direction images =
     (if direction = ''horizontal''
      then paste_horizontal (Image_new (wd * length images, ht)) wd 0 images
      else paste_vertical (Image_new (wd, ht * length images)) ht 0 images)"
  by (cases images) (simp_all add: build_canvas_def)

lemma build_canvas_horizontal:
  assumes "images \<noteq> []" and "img_size (hd images) = (wd, ht)"
    and "\<forall>img \<in> set images. loadable img"
  shows "build_canvas ''horizontal'' images =
    Inr \<lparr>canvas_size = (length images * wd, ht),
         pasted = zip images (map (\<lambda>i. (i * wd, 0)) [0..<length images])\<rparr>"
  by (simp add: build_canvas_unfold [OF assms(1,2)] paste_horizontal_ok [OF assms(3)]
      Image_new_def mult.commute del: upt_Suc)

lemma build_canvas_vertical:
  assumes "images \<noteq> []" and "img_size (hd images) = (wd, ht)"
    and "\<forall>img \<in> set images. loadable img" and "direction \<noteq> ''horizontal''"
  shows "build_canvas direction images =
    Inr \<lparr>canvas_size = (wd, length images * ht),
         pasted = zip images (map (\<lambda>i. (0, i * ht)) [0..<length images])\<rparr>"
  using assms(4)
  by (simp add: build_canvas_unfold [OF assms(1,2)] paste_vertical_ok [OF assms(3)]
      Image_new_def mult.commute del: upt_Suc)

lemma build_canvas_ok:
  assumes "images \<noteq> []" and "\<forall>img \<in> set images. loadable img"
  shows "\<exists>c. build_canvas direction images = Inr c"
proof -
  obtain wd ht where size0: "img_size (hd images) = (wd, ht)" by (cases "img_size (hd images)")
  show ?thesis
  proof (cases "direction = ''horizontal''")
    case True
    with build_canvas_horizontal [OF assms(1) size0 assms(2)] show ?thesis by simp
  next
    case False
    with build_canvas_vertical [OF assms(1) size0 assms(2)] show ?thesis by simp
  qed
qed

lemma build_canvas_fail:
  assumes "\<exists>img \<in> set images. \<not> loadable img"
  shows "\<exists>e. build_canvas direction images = Inl e"
proof -
  from assms have nonempty: "images \<noteq> []" by auto
  obtain wd ht where size0: "img_size (hd images) = (wd, ht)" by (cases "img_size (hd images)")
  from paste_horizontal_fail [OF assms] paste_vertical_fail [OF assms]
  show ?thesis by (simp add: build_canvas_unfold [OF nonempty size0])
qed

subsection \<open>Closing\<close>

lemma close_all_opened:
  "open_handles w = mset imgs + hs \<Longrightarrow> close_all w imgs = w\<lparr>open_handles := hs\<rparr>"
proof (induction imgs arbitrary: w)
  case Nil
  then show ?case by (simp add: close_all_def)
next
  case (Cons img imgs)
  then have "open_handles (Image_close w img) = mset imgs + hs"
    by (simp add: Image_close_def)
  then have "close_all (Image_close w img) imgs = (Image_close w img)\<lparr>open_handles := hs\<rparr>"
    by (rule Cons.IH)
  then show ?case by (simp add: close_all_def Image_close_def)
qed

subsection \<open>The whole function\<close>

lemma concatenate_images_Cons:
  "file_paths \<noteq> [] \<Longrightarrow>
   concatenate_images w file_paths direction output_path =
     (case concatenate_images_try w file_paths direction output_path of
        (Inr r, w1) \<Rightarrow> (r, w1)
      | (Inl e, w1) \<Rightarrow> (False, py_print w1 (ConcatError e)))"
  by (simp add: concatenate_images_def)

text \<open>Every step succeeds: the canvas is at the output path and every handle is closed.\<close>

lemma concatenate_images_ok:
  assumes "file_paths \<noteq> []"
    and "map (image_of_file w) file_paths = map Some images"
    and "build_canvas direction images = Inr c"
    and "save_env w output_path = Completes"
  shows "concatenate_images w file_paths direction output_path =
    (True, w\<lparr>files := (files w)(output_path \<mapsto> Composed c),
              write_log := write_log w @ [output_path]\<rparr>)"
proof -
  let ?w1 = "w\<lparr>open_handles := mset images + open_handles w\<rparr>"
  let ?w2 = "?w1\<lparr>files := (files ?w1)(output_path \<mapsto> Composed c),
                 write_log := write_log ?w1 @ [output_path]\<rparr>"
  have opened: "open_all w file_paths [] = (Inr images, ?w1)"
    using open_all_ok [OF assms(2), of "[]"] by simp
  have saved: "Image_save ?w1 c output_path = (Inr (), ?w2)"
    using assms(4) by (simp add: Image_save_def)
  have "close_all ?w2 images = ?w2\<lparr>open_handles := open_handles w\<rparr>"
    by (rule close_all_opened) simp
  then have closed: "close_all ?w2 images =
    w\<lparr>files := (files w)(output_path \<mapsto> Composed c),
      write_log := write_log w @ [output_path]\<rparr>"
    by simp
  show ?thesis
    using assms(3) opened saved closed
    by (simp add: concatenate_images_Cons [OF assms(1)] concatenate_images_try_def)
qed

text \<open>A file does not open: the function returns \<open>False\<close> and only handles and output changed.\<close>

lemma concatenate_images_open_fails:
  assumes "p \<in> set file_paths" and "image_of_file w p = None"
  shows "\<exists>e hs. concatenate_images w file_paths direction output_path =
    (False, py_print (w\<lparr>open_handles := hs\<rparr>) (ConcatError e))"
proof -
  from assms(1) have nonempty: "file_paths \<noteq> []" by auto
  from assms obtain e where "fst (open_all w file_paths []) = Inl e"
    using open_all_Inl [of file_paths w "[]"] by blast
  moreover obtain hs where "snd (open_all w file_paths []) = w\<lparr>open_handles := hs\<rparr>"
    using open_all_handles_only by blast
  ultimately have "open_all w file_paths [] = (Inl e, w\<lparr>open_handles := hs\<rparr>)"
    by (simp add: prod_eq_iff)
  then have "concatenate_images w file_paths direction output_path =
    (False, py_print (w\<lparr>open_handles := hs\<rparr>) (ConcatError e))"
    by (simp add: concatenate_images_Cons [OF nonempty] concatenate_images_try_def)
  then show ?thesis by blast
qed

text \<open>A paste raises: the same, and every fragment is still open.\<close>

lemma concatenate_images_paste_fails:
  assumes "map (image_of_file w) file_paths = map Some images"
    and "\<exists>img \<in> set images. \<not> loadable img"
  shows "\<exists>e. concatenate_images w file_paths direction output_path =
    (False, py_print (w\<lparr>open_handles := mset images + open_handles w\<rparr>) (ConcatError e))"
proof -
  from assms have nonempty: "file_paths \<noteq> []" by auto
  have opened: "open_all w file_paths [] =
    (Inr images, w\<lparr>open_handles := mset images + open_handles w\<rparr>)"
    using open_all_ok [OF assms(1), of "[]"] by simp
  from build_canvas_fail [OF assms(2)] obtain e where "build_canvas direction images = Inl e"
    by blast
  with opened have "concatenate_images w file_paths direction output_path =
    (False, py_print (w\<lparr>open_handles := mset images + open_handles w\<rparr>) (ConcatError e))"
    by (simp add: concatenate_images_Cons [OF nonempty] concatenate_images_try_def)
  then show ?thesis by blast
qed

text \<open>The save raises: the function returns \<open>False\<close>, and the path holds what the save left.\<close>

lemma concatenate_images_save_fails:
  assumes "file_paths \<noteq> []"
    and "map (image_of_file w) file_paths = map Some images"
    and "build_canvas direction images = Inr c"
    and "save_env w output_path \<noteq> Completes"
  shows "\<exists>w1. concatenate_images w file_paths direction output_path = (False, w1) \<and>
    open_handles w1 = mset images + open_handles w \<and>
    (case save_env w output_path of
       RaisesLeaving e left \<Rightarrow> files w1 = (files w)(output_path := left)
     | _ \<Rightarrow> files w1 = files w \<and> write_log w1 = write_log w)"
proof -
  have opened: "open_all w file_paths [] =
    (Inr images, w\<lparr>open_handles := mset images + open_handles w\<rparr>)"
    using open_all_ok [OF assms(2), of "[]"] by simp
  show ?thesis
    using assms(3,4) opened
    by (cases "save_env w output_path")
      (simp_all add: concatenate_images_Cons [OF assms(1)] concatenate_images_try_def
        Image_save_def py_print_def)
qed

text \<open>A path loads exactly when its image does.\<close>

lemma loads_images:
  "map (image_of_file w) ps = map Some imgs \<Longrightarrow>
   (\<forall>p \<in> set ps. loads w p) = (\<forall>img \<in> set imgs. loadable img)"
proof (induction ps arbitrary: imgs)
  case Nil
  then show ?case by simp
next
  case (Cons p ps)
  then obtain img rest where "imgs = img # rest" "image_of_file w p = Some img"
    "map (image_of_file w) ps = map Some rest"
    by (cases imgs) auto
  with Cons.IH show ?case by (simp add: loads_def)
qed

lemma loads_opens: "loads w p \<Longrightarrow> image_of_file w p \<noteq> None"
  by (auto simp: loads_def split: option.splits)

lemma validated_sizes:
  assumes "fst (check_image_sizes w file_paths) = (True, Some s)"
  shows "file_paths \<noteq> [] \<and> (\<forall>p \<in> set file_paths. size_of_file w p = Some s)"
proof -
  from assms obtain first rest where fp: "file_paths = first # rest"
    by (cases file_paths) (auto simp: check_image_sizes_def)
  show ?thesis
  proof (cases "size_of_file w first")
    case None
    then obtain e where "check_image_sizes_try w (first # rest) = (Inl e, w)"
      using check_image_sizes_try_None by blast
    with assms fp show ?thesis by (simp add: check_image_sizes_Cons)
  next
    case (Some s0)
    then have body: "check_image_sizes_try w (first # rest) = check_rest w s0 rest"
      by (rule check_image_sizes_try_Some)
    from check_rest_cases [of w s0 rest] assms fp body
    have "check_rest w s0 rest = (Inr (True, Some s0), w)" and "s0 = s"
      by (auto simp: check_image_sizes_Cons)
    then have "\<forall>p \<in> set rest. size_of_file w p = Some s"
      using check_rest_True [of w s0 rest "Some s0"] by simp
    with Some \<open>s0 = s\<close> fp show ?thesis by simp
  qed
qed

text \<open>The images of files that all have one size, all loading.\<close>

lemma sized_images:
  assumes "\<forall>p \<in> set ps. size_of_file w p = Some s" and "\<forall>p \<in> set ps. loads w p"
  shows "\<exists>imgs. map (image_of_file w) ps = map Some imgs \<and> length imgs = length ps \<and>
    map filename imgs = ps \<and> (\<forall>img \<in> set imgs. loadable img \<and> img_size img = s)"
proof -
  let ?imgs = "map (\<lambda>p. the (image_of_file w p)) ps"
  from assms(2) have "\<forall>p \<in> set ps. image_of_file w p \<noteq> None" by (simp add: loads_opens)
  then have eq: "map (image_of_file w) ps = map Some ?imgs" by (rule all_open_images)
  moreover have "length ?imgs = length ps" by simp
  moreover from eq have "map filename ?imgs = ps" by (rule images_filenames)
  moreover from assms(2) eq have "\<forall>img \<in> set ?imgs. loadable img"
    using loads_images by blast
  moreover from assms(1) have "\<forall>img \<in> set ?imgs. img_size img = s"
    by (auto simp: size_of_file_def)
  ultimately show ?thesis by blast
qed

text \<open>
  The result for fragments that all open and load and a save that completes. Only the
  first image's size enters the canvas size and the offsets.
\<close>

lemma composed_horizontal:
  assumes "map (image_of_file w) file_paths = map Some images" and "images \<noteq> []"
    and "img_size (hd images) = (wd, ht)"
    and "\<forall>img \<in> set images. loadable img"
    and "save_env w output_path = Completes"
  shows "concatenate_images w file_paths ''horizontal'' output_path =
    (True, w\<lparr>files := (files w)(output_path \<mapsto> Composed
                \<lparr>canvas_size = (length images * wd, ht),
                 pasted = zip images (map (\<lambda>i. (i * wd, 0)) [0..<length images])\<rparr>),
              write_log := write_log w @ [output_path]\<rparr>)"
proof -
  from assms(1,2) have "file_paths \<noteq> []" by auto
  then show ?thesis
    using assms(1) build_canvas_horizontal [OF assms(2,3,4)] assms(5)
    by (rule concatenate_images_ok)
qed

lemma composed_vertical:
  assumes "map (image_of_file w) file_paths = map Some images" and "images \<noteq> []"
    and "img_size (hd images) = (wd, ht)"
    and "\<forall>img \<in> set images. loadable img"
    and "save_env w output_path = Completes"
    and "direction \<noteq> ''horizontal''"
  shows "concatenate_images w file_paths direction output_path =
    (True, w\<lparr>files := (files w)(output_path \<mapsto> Composed
                \<lparr>canvas_size = (wd, length images * ht),
                 pasted = zip images (map (\<lambda>i. (0, i * ht)) [0..<length images])\<rparr>),
              write_log := write_log w @ [output_path]\<rparr>)"
proof -
  from assms(1,2) have "file_paths \<noteq> []" by auto
  then show ?thesis
    using assms(1) build_canvas_vertical [OF assms(2,3,4,6)] assms(5)
    by (rule concatenate_images_ok)
qed

text \<open>The images of a validated list that loads.\<close>

lemma validated_images:
  assumes "fst (check_image_sizes w file_paths) = (True, Some s)"
    and "\<forall>p \<in> set file_paths. loads w p"
  shows "\<exists>images. map (image_of_file w) file_paths = map Some images \<and> images \<noteq> [] \<and>
    length images = length file_paths \<and> map filename images = file_paths \<and>
    img_size (hd images) = s \<and> (\<forall>img \<in> set images. loadable img)"
proof -
  from validated_sizes [OF assms(1)] have nonempty: "file_paths \<noteq> []"
    and sizes: "\<forall>p \<in> set file_paths. size_of_file w p = Some s" by simp_all
  from sized_images [OF sizes assms(2)] obtain images where
    images: "map (image_of_file w) file_paths = map Some images"
      "length images = length file_paths" "map filename images = file_paths"
      "\<forall>img \<in> set images. loadable img \<and> img_size img = s"
    by blast
  from images(2) nonempty have "images \<noteq> []" by auto
  moreover from this images(4) have "img_size (hd images) = s" by simp
  ultimately show ?thesis using images by blast
qed

lemma size_of_composed [simp]:
  "size_of_file (w\<lparr>files := (files w)(p \<mapsto> Composed c), write_log := l\<rparr>) p
     = Some (canvas_size c)"
  by (simp add: size_of_file_def image_of_file_def)

lemma placed_at_composed [simp]:
  "placed_at (w\<lparr>files := (files w)(p \<mapsto> Composed c), write_log := l\<rparr>) p = Some (placed c)"
  by (simp add: placed_at_def)

lemma placed_zip:
  "placed \<lparr>canvas_size = s, pasted = zip images offs\<rparr> = zip (map filename images) offs"
  by (simp add: placed_def zip_map1)

lemmas compose_eval =
  concatenate_images_def concatenate_images_try_def open_all.simps Image_open_def
  build_canvas_def paste_def Image_new_def Image_save_def close_all_def Image_close_def
  py_print_def demo_def demo_files_def

lemma demo_loads:
  "loads demo ''ok/segment_01.png''" "loads demo ''ok/segment_02.png''"
  "loads demo ''bad/segment_01.png''" "loads demo ''bad/segment_02.png''"
  "\<not> loads demo ''bad/segment_03.png''" "\<not> loads demo ''cut/segment_01.png''"
  by (simp_all add: loads_def image_of_file_def demo_def demo_files_def)

text \<open>
  C3. For a validated list of \<open>n\<close> fragments of size \<open>(wd, ht)\<close> (fragments that load,
  a save that completes), horizontal composition succeeds and the image at the
  output path has size \<open>(n * wd, ht)\<close>; vertical composition succeeds and the image
  has size \<open>(wd, n * ht)\<close>.
\<close>

theorem concatenate_images_output_size:
  assumes "fst (check_image_sizes w file_paths) = (True, Some (wd, ht))"
    and "\<forall>p \<in> set file_paths. loads w p"
    and "save_env w output_path = Completes"
  shows "fst (concatenate_images w file_paths ''horizontal'' output_path) = True \<and>
         size_of_file (snd (concatenate_images w file_paths ''horizontal'' output_path))
           output_path = Some (length file_paths * wd, ht) \<and>
         fst (concatenate_images w file_paths ''vertical'' output_path) = True \<and>
         size_of_file (snd (concatenate_images w file_paths ''vertical'' output_path))
           output_path = Some (wd, length file_paths * ht)"
proof -
  from validated_images [OF assms(1,2)] obtain images where
    images: "map (image_of_file w) file_paths = map Some images" "images \<noteq> []"
      "length images = length file_paths" "img_size (hd images) = (wd, ht)"
      "\<forall>img \<in> set images. loadable img"
    by blast
  have vertical: "''vertical'' \<noteq> ''horizontal''" by simp
  show ?thesis
    using images(3)
    by (simp add: composed_horizontal [OF images(1,2,4,5) assms(3)]
        composed_vertical [OF images(1,2,4,5) assms(3) vertical])
qed

theorem concatenate_images_output_size_witness:
  "fst (check_image_sizes demo [''ok/segment_01.png'', ''ok/segment_02.png''])
     = (True, Some (100, 50)) \<and>
   loads demo ''ok/segment_01.png'' \<and> loads demo ''ok/segment_02.png'' \<and>
   save_env demo ''out.png'' = Completes \<and>
   fst (concatenate_images demo [''ok/segment_01.png'', ''ok/segment_02.png'']
     ''horizontal'' ''out.png'') = True \<and>
   size_of_file (snd (concatenate_images demo [''ok/segment_01.png'', ''ok/segment_02.png'']
     ''horizontal'' ''out.png'')) ''out.png'' = Some (200, 50) \<and>
   fst (concatenate_images demo [''ok/segment_01.png'', ''ok/segment_02.png'']
     ''vertical'' ''out.png'') = True \<and>
   size_of_file (snd (concatenate_images demo [''ok/segment_01.png'', ''ok/segment_02.png'']
     ''vertical'' ''out.png'')) ''out.png'' = Some (100, 100)"
proof -
  have validated: "fst (check_image_sizes demo [''ok/segment_01.png'', ''ok/segment_02.png''])
     = (True, Some (100, 50))"
    by (simp add: demo_eval)
  have load: "\<forall>p \<in> set [''ok/segment_01.png'', ''ok/segment_02.png'']. loads demo p"
    by (simp add: demo_loads)
  have save: "save_env demo ''out.png'' = Completes" by (simp add: demo_def)
  from concatenate_images_output_size [OF validated load save] validated save
  show ?thesis by (simp add: demo_loads)
qed

subsection \<open>The order of the fragments\<close>

lemma zip_index:
  "zip xs (map f [0..<length xs]) = map (\<lambda>i. (xs ! i, f i)) [0..<length xs]"
  by (auto intro!: nth_equalityI)

lemma find_segment_files_sorted:
  "sorted (find_segment_files glob folder_path) \<and>
   mset (find_segment_files glob folder_path)
     = mset (glob (os_path_join folder_path ''segment_*.png''))"
  by (simp add: find_segment_files_def)

lemma demo_segment_files:
  "find_segment_files demo_glob ''ok'' = [''ok/segment_01.png'', ''ok/segment_02.png'']"
  by (simp add: find_segment_files_def demo_glob_def os_path_join_def)

text \<open>
  C4. The list \<^verbatim>\<open>find_segment_files\<close> returns holds the paths \<^verbatim>\<open>glob\<close> found, sorted
  character by character. When that list is validated with size \<open>(wd, ht)\<close> (the
  fragments load, the save completes), the saved canvas has fragment \<open>i\<close> of the list
  pasted at offset \<open>(i * wd, 0)\<close> in a horizontal composition and at \<open>(0, i * ht)\<close> in
  a vertical one, in the order of the list.
\<close>

theorem fragments_pasted_in_sorted_order:
  assumes "file_paths = find_segment_files glob folder_path"
    and "fst (check_image_sizes w file_paths) = (True, Some (wd, ht))"
    and "\<forall>p \<in> set file_paths. loads w p"
    and "save_env w output_path = Completes"
  shows "sorted file_paths \<and>
         mset file_paths = mset (glob (os_path_join folder_path ''segment_*.png'')) \<and>
         placed_at (snd (concatenate_images w file_paths ''horizontal'' output_path))
           output_path
           = Some (map (\<lambda>i. (file_paths ! i, (i * wd, 0))) [0..<length file_paths]) \<and>
         placed_at (snd (concatenate_images w file_paths ''vertical'' output_path))
           output_path
           = Some (map (\<lambda>i. (file_paths ! i, (0, i * ht))) [0..<length file_paths])"
proof -
  from validated_images [OF assms(2,3)] obtain images where
    images: "map (image_of_file w) file_paths = map Some images" "images \<noteq> []"
      "length images = length file_paths" "map filename images = file_paths"
      "img_size (hd images) = (wd, ht)" "\<forall>img \<in> set images. loadable img"
    by blast
  have vertical: "''vertical'' \<noteq> ''horizontal''" by simp
  have "placed_at (snd (concatenate_images w file_paths ''horizontal'' output_path))
      output_path
    = Some (zip file_paths (map (\<lambda>i. (i * wd, 0)) [0..<length file_paths]))"
    using images(3,4)
    by (simp add: composed_horizontal [OF images(1,2,5,6) assms(4)] placed_zip)
  moreover
  have "placed_at (snd (concatenate_images w file_paths ''vertical'' output_path))
      output_path
    = Some (zip file_paths (map (\<lambda>i. (0, i * ht)) [0..<length file_paths]))"
    using images(3,4)
    by (simp add: composed_vertical [OF images(1,2,5,6) assms(4) vertical] placed_zip)
  ultimately show ?thesis
    using find_segment_files_sorted [of glob folder_path] assms(1)
    by (simp only: zip_index)
qed

theorem fragments_pasted_in_sorted_order_witness:
  "find_segment_files demo_glob ''ok'' = [''ok/segment_01.png'', ''ok/segment_02.png''] \<and>
   fst (check_image_sizes demo [''ok/segment_01.png'', ''ok/segment_02.png''])
     = (True, Some (100, 50)) \<and>
   loads demo ''ok/segment_01.png'' \<and> loads demo ''ok/segment_02.png'' \<and>
   save_env demo ''out.png'' = Completes \<and>
   placed_at (snd (concatenate_images demo [''ok/segment_01.png'', ''ok/segment_02.png'']
     ''horizontal'' ''out.png'')) ''out.png''
     = Some [(''ok/segment_01.png'', (0, 0)), (''ok/segment_02.png'', (100, 0))] \<and>
   placed_at (snd (concatenate_images demo [''ok/segment_01.png'', ''ok/segment_02.png'']
     ''vertical'' ''out.png'')) ''out.png''
     = Some [(''ok/segment_01.png'', (0, 0)), (''ok/segment_02.png'', (0, 50))]"
proof -
  have found: "[''ok/segment_01.png'', ''ok/segment_02.png''] = find_segment_files demo_glob ''ok''"
    by (simp add: demo_segment_files)
  have validated: "fst (check_image_sizes demo [''ok/segment_01.png'', ''ok/segment_02.png''])
     = (True, Some (100, 50))"
    by (simp add: demo_eval)
  have load: "\<forall>p \<in> set [''ok/segment_01.png'', ''ok/segment_02.png'']. loads demo p"
    by (simp add: demo_loads)
  have save: "save_env demo ''out.png'' = Completes" by (simp add: demo_def)
  have idx: "[0..<2] = [0, Suc 0]" by (simp add: upt_rec)
  from fragments_pasted_in_sorted_order [OF found validated load save] validated save
  show ?thesis by (simp add: demo_loads demo_segment_files idx)
qed

subsection \<open>Fragments of different sizes\<close>

text \<open>
  C10. The compositor reads the size of the first image only. Whatever the sizes of
  the other fragments, for \<open>n\<close> fragments that open as \<open>images\<close> (and load, with a save
  that completes), of which the first has size \<open>(wd, ht)\<close>, the canvas is
  \<open>(n * wd, ht)\<close> with image \<open>i\<close> pasted at \<open>(i * wd, 0)\<close>, or \<open>(wd, n * ht)\<close> with
  image \<open>i\<close> pasted at \<open>(0, i * ht)\<close>.
\<close>

theorem concatenate_images_first_size_only:
  assumes "map (image_of_file w) file_paths = map Some images" and "images \<noteq> []"
    and "img_size (hd images) = (wd, ht)"
    and "\<forall>img \<in> set images. loadable img"
    and "save_env w output_path = Completes"
  shows "concatenate_images w file_paths ''horizontal'' output_path =
           (True, w\<lparr>files := (files w)(output_path \<mapsto> Composed
                       \<lparr>canvas_size = (length images * wd, ht),
                        pasted = map (\<lambda>i. (images ! i, (i * wd, 0))) [0..<length images]\<rparr>),
                     write_log := write_log w @ [output_path]\<rparr>) \<and>
         concatenate_images w file_paths ''vertical'' output_path =
           (True, w\<lparr>files := (files w)(output_path \<mapsto> Composed
                       \<lparr>canvas_size = (wd, length images * ht),
                        pasted = map (\<lambda>i. (images ! i, (0, i * ht))) [0..<length images]\<rparr>),
                     write_log := write_log w @ [output_path]\<rparr>)"
proof -
  have vertical: "''vertical'' \<noteq> ''horizontal''" by simp
  show ?thesis
    by (simp only: composed_horizontal [OF assms] composed_vertical [OF assms vertical]
        zip_index)
qed

theorem concatenate_images_first_size_only_witness:
  "size_of_file demo ''bad/segment_01.png'' = Some (100, 50) \<and>
   size_of_file demo ''bad/segment_02.png'' = Some (80, 50) \<and>
   save_env demo ''out.png'' = Completes \<and>
   files (snd (concatenate_images demo [''bad/segment_01.png'', ''bad/segment_02.png'']
     ''horizontal'' ''out.png'')) ''out.png''
     = Some (Composed \<lparr>canvas_size = (200, 50), pasted =
         [(\<lparr>filename = ''bad/segment_01.png'', img_size = (100, 50), loadable = True\<rparr>, (0, 0)),
          (\<lparr>filename = ''bad/segment_02.png'', img_size = (80, 50), loadable = True\<rparr>,
           (100, 0))]\<rparr>) \<and>
   files (snd (concatenate_images demo [''bad/segment_01.png'', ''bad/segment_02.png'']
     ''vertical'' ''out.png'')) ''out.png''
     = Some (Composed \<lparr>canvas_size = (100, 100), pasted =
         [(\<lparr>filename = ''bad/segment_01.png'', img_size = (100, 50), loadable = True\<rparr>, (0, 0)),
          (\<lparr>filename = ''bad/segment_02.png'', img_size = (80, 50), loadable = True\<rparr>,
           (0, 50))]\<rparr>)"
proof -
  let ?a = "\<lparr>filename = ''bad/segment_01.png'', img_size = (100, 50), loadable = True\<rparr>"
  let ?b = "\<lparr>filename = ''bad/segment_02.png'', img_size = (80, 50), loadable = True\<rparr>"
  have opened: "map (image_of_file demo) [''bad/segment_01.png'', ''bad/segment_02.png'']
    = map Some [?a, ?b]"
    by (simp add: image_of_file_def demo_def demo_files_def)
  have nonempty: "[?a, ?b] \<noteq> []" by simp
  have first: "img_size (hd [?a, ?b]) = (100, 50)" by simp
  have load: "\<forall>img \<in> set [?a, ?b]. loadable img" by simp
  have save: "save_env demo ''out.png'' = Completes" by (simp add: demo_def)
  have idx: "[0..<2] = [0, Suc 0]" by (simp add: upt_rec)
  from concatenate_images_first_size_only [OF opened nonempty first load save] save
  show ?thesis by (simp add: demo_sizes idx)
qed

section \<open>Failures of the compositor\<close>

text \<open>The five ways \<^verbatim>\<open>concatenate_images\<close> ends.\<close>

lemma concatenate_images_cases:
  obtains
    (empty) "file_paths = []"
      "concatenate_images w file_paths direction output_path = (False, w)"
  | (unopened) e hs where "\<exists>p \<in> set file_paths. image_of_file w p = None"
      "concatenate_images w file_paths direction output_path =
         (False, py_print (w\<lparr>open_handles := hs\<rparr>) (ConcatError e))"
  | (unpasted) e images where "map (image_of_file w) file_paths = map Some images"
      "\<exists>img \<in> set images. \<not> loadable img"
      "concatenate_images w file_paths direction output_path =
         (False, py_print (w\<lparr>open_handles := mset images + open_handles w\<rparr>) (ConcatError e))"
  | (unsaved) images w1 where "file_paths \<noteq> []"
      "map (image_of_file w) file_paths = map Some images"
      "\<forall>img \<in> set images. loadable img"
      "save_env w output_path \<noteq> Completes"
      "concatenate_images w file_paths direction output_path = (False, w1)"
      "open_handles w1 = mset images + open_handles w"
      "case save_env w output_path of
         RaisesLeaving e left \<Rightarrow> files w1 = (files w)(output_path := left)
       | _ \<Rightarrow> files w1 = files w \<and> write_log w1 = write_log w"
  | (saved) images c where "file_paths \<noteq> []"
      "map (image_of_file w) file_paths = map Some images"
      "\<forall>img \<in> set images. loadable img"
      "save_env w output_path = Completes"
      "concatenate_images w file_paths direction output_path =
         (True, w\<lparr>files := (files w)(output_path \<mapsto> Composed c),
                   write_log := write_log w @ [output_path]\<rparr>)"
proof (cases "file_paths = []")
  case True
  then show ?thesis using empty by (simp add: concatenate_images_def)
next
  case nonempty: False
  show ?thesis
  proof (cases "\<exists>p \<in> set file_paths. image_of_file w p = None")
    case True
    then obtain p where "p \<in> set file_paths" "image_of_file w p = None" by blast
    from concatenate_images_open_fails [OF this] True show ?thesis using unopened by blast
  next
    case False
    then have "\<forall>p \<in> set file_paths. image_of_file w p \<noteq> None" by simp
    then obtain images where images: "map (image_of_file w) file_paths = map Some images"
      using all_open_images by blast
    with nonempty have images_nonempty: "images \<noteq> []" by auto
    show ?thesis
    proof (cases "\<forall>img \<in> set images. loadable img")
      case False
      then have "\<exists>img \<in> set images. \<not> loadable img" by simp
      from concatenate_images_paste_fails [OF images this] this images
      show ?thesis using unpasted by blast
    next
      case True
      with build_canvas_ok [OF images_nonempty] obtain c
        where c: "build_canvas direction images = Inr c" by blast
      show ?thesis
      proof (cases "save_env w output_path = Completes")
        case True
        from concatenate_images_ok [OF nonempty images c True]
        show ?thesis using saved nonempty images \<open>\<forall>img \<in> set images. loadable img\<close> True
          by blast
      next
        case False
        from concatenate_images_save_fails [OF nonempty images c False]
        show ?thesis using unsaved nonempty images \<open>\<forall>img \<in> set images. loadable img\<close> False
          by blast
      qed
    qed
  qed
qed

text \<open>
  C8, as the code has it. \<^verbatim>\<open>concatenate_images\<close> saves straight to the output path.
  It returns \<open>True\<close> only when the save completed, and then the path holds the
  composed canvas. When it returns \<open>False\<close>, either no file was touched, or the save
  raised after opening the output path and the path holds what the save left there.
  When a fragment does not open or does not load (so that a paste raises), it
  returns \<open>False\<close> and no file was touched.
\<close>

theorem concatenate_images_writes:
  assumes "concatenate_images w file_paths direction output_path = (ok, w1)"
  shows "(ok \<longrightarrow> save_env w output_path = Completes \<and> (\<forall>p \<in> set file_paths. loads w p) \<and>
            (\<exists>c. files w1 = (files w)(output_path \<mapsto> Composed c))) \<and>
         (\<not> ok \<longrightarrow> (files w1 = files w \<and> write_log w1 = write_log w) \<or>
            (\<exists>e left. save_env w output_path = RaisesLeaving e left \<and>
               files w1 = (files w)(output_path := left))) \<and>
         ((\<exists>p \<in> set file_paths. \<not> loads w p) \<longrightarrow>
            \<not> ok \<and> files w1 = files w \<and> write_log w1 = write_log w)"
proof (cases rule: concatenate_images_cases [of file_paths w direction output_path])
  case empty
  with assms show ?thesis by simp
next
  case (unopened e hs)
  with assms show ?thesis by (auto simp: py_print_def)
next
  case (unpasted e images)
  with assms show ?thesis by (auto simp: py_print_def)
next
  case (unsaved images w1')
  from unsaved(2,3) have "\<forall>p \<in> set file_paths. loads w p" by (simp add: loads_images)
  with unsaved assms show ?thesis
    by (cases "save_env w output_path") auto
next
  case (saved images c)
  from saved(2,3) have "\<forall>p \<in> set file_paths. loads w p" by (simp add: loads_images)
  with saved assms show ?thesis by auto
qed

theorem concatenate_images_writes_witness:
  "\<not> loads demo ''cut/segment_01.png'' \<and>
   fst (concatenate_images demo [''ok/segment_01.png'', ''cut/segment_01.png'']
     ''horizontal'' ''out.png'') = False \<and>
   files (snd (concatenate_images demo [''ok/segment_01.png'', ''cut/segment_01.png'']
     ''horizontal'' ''out.png'')) = files demo \<and>
   write_log (snd (concatenate_images demo [''ok/segment_01.png'', ''cut/segment_01.png'']
     ''horizontal'' ''out.png'')) = write_log demo"
  using concatenate_images_writes
    [of demo "[''ok/segment_01.png'', ''cut/segment_01.png'']" "''horizontal''" "''out.png''"
      "fst (concatenate_images demo [''ok/segment_01.png'', ''cut/segment_01.png'']
        ''horizontal'' ''out.png'')"
      "snd (concatenate_images demo [''ok/segment_01.png'', ''cut/segment_01.png'']
        ''horizontal'' ''out.png'')"]
  by (simp add: demo_loads)

lemmas full_disk_eval =
  concatenate_images_def concatenate_images_try_def open_all.simps Image_open_def
  build_canvas_def paste_def Image_new_def Image_save_def py_print_def
  demo_full_disk_def demo_files_def

text \<open>
  C8, as the spec has it, fails. On a full disk, with an earlier output at the output
  path, the save raises midway: \<^verbatim>\<open>concatenate_images\<close> returns \<open>False\<close> and the
  output path, which held a complete image, now holds a file cut short.
\<close>

theorem failed_save_leaves_partial_file:
  "fst (concatenate_images demo_full_disk [''ok/segment_01.png'', ''ok/segment_02.png'']
     ''horizontal'' ''out.png'') = False \<and>
   files demo_full_disk ''out.png'' = Some (Composed earlier_output) \<and>
   files (snd (concatenate_images demo_full_disk [''ok/segment_01.png'', ''ok/segment_02.png'']
     ''horizontal'' ''out.png'')) ''out.png'' = Some (Raster (200, 50) False)"
  by (simp add: full_disk_eval)

section \<open>Image handles\<close>

text \<open>The validator closes what it opens, however it ends.\<close>

lemma check_image_sizes_releases:
  "open_handles (snd (check_image_sizes w file_paths)) = open_handles w"
proof (cases file_paths)
  case Nil
  then show ?thesis by (simp add: check_image_sizes_def)
next
  case (Cons first rest)
  show ?thesis
  proof (cases "size_of_file w first")
    case None
    then obtain e where "check_image_sizes_try w (first # rest) = (Inl e, w)"
      using check_image_sizes_try_None by blast
    with Cons show ?thesis by (simp add: check_image_sizes_Cons py_print_def)
  next
    case (Some s0)
    then have "check_image_sizes_try w (first # rest) = check_rest w s0 rest"
      by (rule check_image_sizes_try_Some)
    with Cons check_rest_cases [of w s0 rest] show ?thesis
      by (auto simp: check_image_sizes_Cons py_print_def)
  qed
qed

text \<open>The compositor closes what it opened when it returns \<open>True\<close>.\<close>

lemma concatenate_images_success_releases:
  assumes "fst (concatenate_images w file_paths direction output_path) = True"
  shows "open_handles (snd (concatenate_images w file_paths direction output_path))
    = open_handles w"
  using assms
  by (cases rule: concatenate_images_cases [of file_paths w direction output_path]) simp_all

text \<open>
  When every fragment opens and the compositor returns \<open>False\<close> (a paste or the save
  raised), every fragment is still open: lines 104 and 105 were not reached.
\<close>

lemma concatenate_images_failure_keeps_handles:
  assumes "map (image_of_file w) file_paths = map Some images"
    and "fst (concatenate_images w file_paths direction output_path) = False"
  shows "open_handles (snd (concatenate_images w file_paths direction output_path))
    = mset images + open_handles w"
proof (cases rule: concatenate_images_cases [of file_paths w direction output_path])
  case empty
  with assms show ?thesis by simp
next
  case (unopened e hs)
  with assms(1) show ?thesis by (auto dest: map_eq_imp_length_eq simp: in_set_conv_nth)
       (metis length_map nth_map option.distinct(1))
next
  case (unpasted e images')
  with assms(1) have "images' = images" by (simp add: map_eq_conv inj_map_eq_map)
  with unpasted show ?thesis by (simp add: py_print_def)
next
  case (unsaved images' w1)
  with assms(1) have "images' = images" by (simp add: map_eq_conv inj_map_eq_map)
  with unsaved show ?thesis by simp
next
  case (saved images' c)
  with assms(2) show ?thesis by simp
qed

text \<open>
  C7 fails in \<^verbatim>\<open>concatenate_images\<close>. The first fragment opens and the second is no
  image: the function returns \<open>False\<close> and the handle on the first fragment, which
  was not open before the call, is open after it.
\<close>

theorem concatenate_images_leaves_handle_open:
  "fst (concatenate_images demo [''bad/segment_01.png'', ''bad/segment_03.png'']
     ''horizontal'' ''out.png'') = False \<and>
   open_handles demo = {#} \<and>
   open_handles (snd (concatenate_images demo [''bad/segment_01.png'', ''bad/segment_03.png'']
     ''horizontal'' ''out.png''))
     = {#\<lparr>filename = ''bad/segment_01.png'', img_size = (100, 50), loadable = True\<rparr>#}"
  by (simp add: compose_eval)

section \<open>The empty list\<close>

text \<open>
  C9. On the empty list both functions return at once: \<^verbatim>\<open>check_image_sizes\<close> gives
  \<open>(False, None)\<close> and \<^verbatim>\<open>concatenate_images\<close> gives \<open>False\<close>. Neither raises, and the
  world is as it was: no file is written, nothing is opened or printed.
\<close>

theorem empty_list_fails:
  "check_image_sizes w [] = ((False, None), w) \<and>
   concatenate_images w [] direction output_path = (False, w)"
  by (simp add: check_image_sizes_def concatenate_images_def)

theorem empty_list_fails_witness:
  "check_image_sizes demo [] = ((False, None), demo) \<and>
   concatenate_images demo [] ''vertical'' ''out.png'' = (False, demo)"
  by (rule empty_list_fails)

section \<open>The output name\<close>

lemma digit_inj:
  assumes "a < 10" and "b < 10" and "char_of (48 + a :: nat) = char_of (48 + b)"
  shows "a = b"
proof -
  from assms(3) have "(of_char (char_of (48 + a)) :: nat) = of_char (char_of (48 + b))"
    by simp
  then have "(48 + a) mod 256 = (48 + b) mod 256" by simp
  with assms(1,2) show ?thesis by simp
qed

lemma str_nat_nonempty: "str_nat n \<noteq> []"
  by (subst str_nat.simps) simp

lemma str_nat_length_one: "length (str_nat n) = 1 \<Longrightarrow> n < 10"
  using str_nat_nonempty [of "n div 10"]
  by (subst (asm) str_nat.simps) (auto split: if_splits)

lemma str_nat_inj: "str_nat m = str_nat n \<Longrightarrow> m = n"
proof (induction m arbitrary: n rule: str_nat.induct)
  case (1 m)
  show ?case
  proof (cases "m < 10")
    case True
    then have m: "str_nat m = [char_of (48 + m)]" by (subst str_nat.simps) simp
    with "1.prems" have "str_nat n = [char_of (48 + m)]" by simp
    then have "length (str_nat n) = 1" by simp
    then have "n < 10" by (rule str_nat_length_one)
    then have "str_nat n = [char_of (48 + n)]" by (subst str_nat.simps) simp
    with m "1.prems" True \<open>n < 10\<close> show ?thesis by (simp add: digit_inj)
  next
    case False
    then have m: "str_nat m = str_nat (m div 10) @ [char_of (48 + m mod 10)]"
      by (subst str_nat.simps) simp
    have "\<not> n < 10"
    proof
      assume "n < 10"
      then have "str_nat n = [char_of (48 + n)]" by (subst str_nat.simps) simp
      with "1.prems" have "str_nat m = [char_of (48 + n)]" by simp
      then have "length (str_nat m) = 1" by simp
      then have "m < 10" by (rule str_nat_length_one)
      with False show False by simp
    qed
    then have n: "str_nat n = str_nat (n div 10) @ [char_of (48 + n mod 10)]"
      by (subst str_nat.simps) simp
    from m n "1.prems" have heads: "str_nat (m div 10) = str_nat (n div 10)"
      and last: "char_of (48 + m mod 10) = char_of (48 + n mod 10)" by simp_all
    from "1.IH" [OF False heads] have "m div 10 = n div 10" .
    moreover from last have "m mod 10 = n mod 10" by (intro digit_inj) simp_all
    ultimately show ?thesis by (metis div_mult_mod_eq)
  qed
qed

lemma demo_output_path:
  "output_path_of ''20240101_120000'' 417 = ''concatenated/20240101_120000_417.png''"
  by code_simp

text \<open>The compositor touches no path but the output path.\<close>

lemma concatenate_images_files_elsewhere:
  assumes "p \<noteq> output_path"
  shows "files (snd (concatenate_images w file_paths direction output_path)) p = files w p"
proof (cases rule: concatenate_images_cases [of file_paths w direction output_path])
  case empty
  then show ?thesis by simp
next
  case (unopened e hs)
  then show ?thesis by (simp add: py_print_def)
next
  case (unpasted e images)
  then show ?thesis by (simp add: py_print_def)
next
  case (unsaved images w1)
  with assms show ?thesis by (cases "save_env w output_path") auto
next
  case (saved images c)
  with assms show ?thesis by simp
qed

text \<open>
  C5, as the code has it. Two runs in the same second get the same \<open>timestamp\<close>;
  their output paths differ exactly when their random suffixes differ, and then the
  run with suffix \<open>r2\<close> leaves what is at the path of the run with suffix \<open>r1\<close> as
  it is.
\<close>

theorem distinct_suffix_distinct_output:
  "(output_path_of timestamp r1 = output_path_of timestamp r2 \<longleftrightarrow> r1 = r2) \<and>
   (r1 \<noteq> r2 \<longrightarrow>
      files (snd (compose_run w timestamp r2 segment_files direction))
        (output_path_of timestamp r1) = files w (output_path_of timestamp r1))"
proof -
  have paths: "output_path_of timestamp r1 = output_path_of timestamp r2 \<longleftrightarrow> r1 = r2"
    by (auto simp: output_path_of_def output_filename_def dest: str_nat_inj)
  then show ?thesis
    by (simp add: compose_run_def concatenate_images_files_elsewhere)
qed

theorem distinct_suffix_distinct_output_witness:
  "(417 :: nat) \<noteq> 418 \<and>
   output_path_of ''20240101_120000'' 417 \<noteq> output_path_of ''20240101_120000'' 418 \<and>
   files (snd (compose_run
       (snd (compose_run demo ''20240101_120000'' 417 [''ok/segment_01.png''] ''vertical''))
       ''20240101_120000'' 418 [''ok/segment_01.png''] ''vertical''))
     (output_path_of ''20240101_120000'' 417)
   = files (snd (compose_run demo ''20240101_120000'' 417 [''ok/segment_01.png''] ''vertical''))
     (output_path_of ''20240101_120000'' 417)"
  using distinct_suffix_distinct_output
    [of "''20240101_120000''" 417 418
      "snd (compose_run demo ''20240101_120000'' 417 [''ok/segment_01.png''] ''vertical'')"
      "[''ok/segment_01.png'']" "''vertical''"]
  by simp

text \<open>
  C5, as the spec has it, fails: \<^verbatim>\<open>random.randint(100, 999)\<close> can return 417 in both
  runs. Two runs in the same second on the same fragments then both succeed and
  both write the same path: the second run overwrites the output of the first.
\<close>

theorem same_second_same_suffix_overwrites:
  "randint 100 999 417 \<and>
   fst (compose_run demo ''20240101_120000'' 417 [''ok/segment_01.png''] ''vertical'') \<and>
   fst (compose_run
     (snd (compose_run demo ''20240101_120000'' 417 [''ok/segment_01.png''] ''vertical''))
     ''20240101_120000'' 417 [''ok/segment_01.png''] ''vertical'') \<and>
   write_log (snd (compose_run
     (snd (compose_run demo ''20240101_120000'' 417 [''ok/segment_01.png''] ''vertical''))
     ''20240101_120000'' 417 [''ok/segment_01.png''] ''vertical''))
     = [''concatenated/20240101_120000_417.png'', ''concatenated/20240101_120000_417.png'']"
  by (simp add: compose_run_def demo_output_path randint_def compose_eval)

end
